theory Spec2Isabelle
  imports Main
begin

section \<open>API type identity: group, version, kind and resource tuples\<close>

text \<open>
  A shallow embedding of \<^verbatim>\<open>pkg/scheme/group_version.go\<close>. Go strings are byte
  sequences, modelled as \<^typ>\<open>string\<close> (a list of 8-bit characters). Go's \<^verbatim>\<open>int\<close> is
  modelled as \<^typ>\<open>int\<close>: every integer of this file is an index into, or a count over, a
  string held in memory, so it stays far below \<open>2^63\<close> and never wraps.

  A run-time panic (index or slice bounds out of range) is a value of type \<open>panic\<close>;
  a function whose body indexes or slices returns \<open>panic + 'a\<close>, with \<open>Inl\<close> the panic.
  The one \<^verbatim>\<open>error\<close> value of the package is the \<open>error\<close> datatype.
\<close>

subsection \<open>Panics, errors and the indexing primitives of the language\<close>

datatype panic = IndexOutOfRange | SliceBoundsOutOfRange

datatype error = Errorf string

definition pbind :: "panic + 'a \<Rightarrow> ('a \<Rightarrow> panic + 'b) \<Rightarrow> panic + 'b" where
  "pbind m f = (case m of Inl p \<Rightarrow> Inl p | Inr x \<Rightarrow> f x)"

text \<open>\<^verbatim>\<open>a[i]\<close>: panics unless \<open>0 \<le> i < len(a)\<close>.\<close>

definition index_at :: "'a list \<Rightarrow> int \<Rightarrow> panic + 'a" where
  "index_at a i = (if 0 \<le> i \<and> i < int (length a) then Inr (a ! nat i) else Inl IndexOutOfRange)"

text \<open>\<^verbatim>\<open>s[i:]\<close> and \<^verbatim>\<open>s[:i]\<close>: panic unless \<open>0 \<le> i \<le> len(s)\<close>.\<close>

definition slice_from :: "string \<Rightarrow> int \<Rightarrow> panic + string" where
  "slice_from s i =
     (if 0 \<le> i \<and> i \<le> int (length s) then Inr (drop (nat i) s) else Inl SliceBoundsOutOfRange)"

definition slice_to :: "string \<Rightarrow> int \<Rightarrow> panic + string" where
  "slice_to s i =
     (if 0 \<le> i \<and> i \<le> int (length s) then Inr (take (nat i) s) else Inl SliceBoundsOutOfRange)"

subsection \<open>The functions of package \<^verbatim>\<open>strings\<close> that the code calls\<close>

text \<open>
  The standard library is not part of the repository; these follow its documentation.
  Every call in the source passes a one-byte separator (\<^verbatim>\<open>"."\<close>, \<^verbatim>\<open>"/"\<close>), so the
  separator is a \<^typ>\<open>char\<close> here, except in \<open>Join\<close>.

  \<^item> \<^verbatim>\<open>strings.Count(s, sep)\<close>: the number of instances of \<open>sep\<close> in \<open>s\<close>.
  \<^item> \<^verbatim>\<open>strings.Index(s, sep)\<close>: the index of the first instance of \<open>sep\<close> in \<open>s\<close>,
    or \<open>-1\<close> when there is none.
  \<^item> \<^verbatim>\<open>strings.SplitN(s, sep, n)\<close>: \<open>n = 0\<close> gives no substrings, \<open>n < 0\<close> all of them,
    \<open>n > 0\<close> at most \<open>n\<close>, the last one being the unsplit remainder. \<open>genSplit\<close> is its loop,
    which cuts at the first separator at most the given number of times. (The library
    also caps \<open>n\<close> at \<open>len(s) + 1\<close> to size its result; a string holds at most \<open>len(s)\<close>
    separators, so the cap changes no result and is left out.)
  \<^item> \<^verbatim>\<open>strings.Join(elems, sep)\<close>: the elements concatenated, \<open>sep\<close> between
    neighbours; the empty string for no elements.
\<close>

definition Count :: "string \<Rightarrow> char \<Rightarrow> int" where
  "Count s c = int (length (filter (\<lambda>x. x = c) s))"

definition Index :: "string \<Rightarrow> char \<Rightarrow> int" where
  "Index s c = (if c \<in> set s then int (length (takeWhile (\<lambda>x. x \<noteq> c) s)) else - 1)"

fun genSplit :: "string \<Rightarrow> char \<Rightarrow> nat \<Rightarrow> string list" where
  "genSplit s c 0 = [s]"
| "genSplit s c (Suc n) =
     (let m = Index s c in
      if m < 0 then [s]
      else take (nat m) s # genSplit (drop (nat (m + 1)) s) c n)"

definition SplitN :: "string \<Rightarrow> char \<Rightarrow> int \<Rightarrow> string list" where
  "SplitN s c n =
     (if n = 0 then []
      else if n < 0 then genSplit s c (nat (Count s c))
      else genSplit s c (nat (n - 1)))"

fun Join :: "string list \<Rightarrow> string \<Rightarrow> string" where
  "Join [] sep = []"
| "Join (e # es) sep = foldl (\<lambda>b s. b @ sep @ s) e es"

subsection \<open>The identity value types\<close>

record GroupResource =
  GR_Group :: string
  GR_Resource :: string

record GroupVersionResource =
  GVR_Group :: string
  GVR_Version :: string
  GVR_Resource :: string

record GroupKind =
  GK_Group :: string
  GK_Kind :: string

record GroupVersionKind =
  GVK_Group :: string
  GVK_Version :: string
  GVK_Kind :: string

record GroupVersion =
  GV_Group :: string
  GV_Version :: string

type_synonym GroupVersions = "GroupVersion list"

text \<open>The zero values \<^verbatim>\<open>GroupVersionKind{}\<close> and \<^verbatim>\<open>GroupVersion{}\<close>.\<close>

definition GroupVersionKind_zero :: GroupVersionKind where
  "GroupVersionKind_zero = \<lparr>GVK_Group = [], GVK_Version = [], GVK_Kind = []\<rparr>"

definition GroupVersion_zero :: GroupVersion where
  "GroupVersion_zero = \<lparr>GV_Group = [], GV_Version = []\<rparr>"

definition GroupVersionKind_Empty :: "GroupVersionKind \<Rightarrow> bool" where
  "GroupVersionKind_Empty gvk \<longleftrightarrow>
     length (GVK_Group gvk) = 0 \<and> length (GVK_Version gvk) = 0 \<and> length (GVK_Kind gvk) = 0"

definition GroupVersionKind_GroupVersion :: "GroupVersionKind \<Rightarrow> GroupVersion" where
  "GroupVersionKind_GroupVersion gvk = \<lparr>GV_Group = GVK_Group gvk, GV_Version = GVK_Version gvk\<rparr>"

definition GroupVersion_String :: "GroupVersion \<Rightarrow> string" where
  "GroupVersion_String gv =
     (if length (GV_Group gv) > 0 then GV_Group gv @ ''/'' @ GV_Version gv else GV_Version gv)"

definition GroupVersion_Identifier :: "GroupVersion \<Rightarrow> string" where
  "GroupVersion_Identifier gv = GroupVersion_String gv"

definition GroupVersion_WithKind :: "GroupVersion \<Rightarrow> string \<Rightarrow> GroupVersionKind" where
  "GroupVersion_WithKind gv kind =
     \<lparr>GVK_Group = GV_Group gv, GVK_Version = GV_Version gv, GVK_Kind = kind\<rparr>"

subsection \<open>Parsing\<close>

definition ParseGroupKind :: "string \<Rightarrow> panic + GroupKind" where
  "ParseGroupKind gk =
     (let i = Index gk CHR ''.'' in
      if i = - 1 then Inr \<lparr>GK_Group = [], GK_Kind = gk\<rparr>
      else pbind (slice_from gk (i + 1)) (\<lambda>g.
           pbind (slice_to gk i) (\<lambda>k.
           Inr \<lparr>GK_Group = g, GK_Kind = k\<rparr>)))"

definition ParseGroupResource :: "string \<Rightarrow> panic + GroupResource" where
  "ParseGroupResource gr =
     (let i = Index gr CHR ''.'' in
      if i \<ge> 0 then
        pbind (slice_from gr (i + 1)) (\<lambda>g.
        pbind (slice_to gr i) (\<lambda>r.
        Inr \<lparr>GR_Group = g, GR_Resource = r\<rparr>))
      else Inr \<lparr>GR_Group = [], GR_Resource = gr\<rparr>)"

definition ParseResourceArg :: "string \<Rightarrow> panic + (GroupVersionResource option \<times> GroupResource)" where
  "ParseResourceArg arg =
     pbind (if Count arg CHR ''.'' \<ge> 2 then
              (let s = SplitN arg CHR ''.'' 3 in
               pbind (index_at s 2) (\<lambda>s2.
               pbind (index_at s 1) (\<lambda>s1.
               pbind (index_at s 0) (\<lambda>s0.
               Inr (Some \<lparr>GVR_Group = s2, GVR_Version = s1, GVR_Resource = s0\<rparr>)))))
            else Inr None) (\<lambda>gvr.
     pbind (ParseGroupResource arg) (\<lambda>gr.
     Inr (gvr, gr)))"

definition ParseKindArg :: "string \<Rightarrow> panic + (GroupVersionKind option \<times> GroupKind)" where
  "ParseKindArg arg =
     pbind (if Count arg CHR ''.'' \<ge> 2 then
              (let s = SplitN arg CHR ''.'' 3 in
               pbind (index_at s 2) (\<lambda>s2.
               pbind (index_at s 1) (\<lambda>s1.
               pbind (index_at s 0) (\<lambda>s0.
               Inr (Some \<lparr>GVK_Group = s2, GVK_Version = s1, GVK_Kind = s0\<rparr>)))))
            else Inr None) (\<lambda>gvk.
     pbind (ParseGroupKind arg) (\<lambda>gk.
     Inr (gvk, gk)))"

text \<open>
  \<^verbatim>\<open>ParseGroupVersion\<close> returns a value and an \<^verbatim>\<open>error\<close>; the model returns one or the
  other (on the error path the source's value is the zero \<^verbatim>\<open>GroupVersion{}\<close>).
\<close>

definition ParseGroupVersion :: "string \<Rightarrow> panic + (error + GroupVersion)" where
  "ParseGroupVersion gv =
     (if length gv = 0 \<or> gv = ''/'' then Inr (Inr GroupVersion_zero)
      else if Count gv CHR ''/'' = 0 then Inr (Inr \<lparr>GV_Group = [], GV_Version = gv\<rparr>)
      else if Count gv CHR ''/'' = 1 then
        (let i = Index gv CHR ''/'' in
         pbind (slice_to gv i) (\<lambda>g.
         pbind (slice_from gv (i + 1)) (\<lambda>v.
         Inr (Inr \<lparr>GV_Group = g, GV_Version = v\<rparr>))))
      else Inr (Inl (Errorf (''unexpected GroupVersion string: '' @ gv))))"

subsection \<open>Kind resolution\<close>

text \<open>
  The two \<^verbatim>\<open>for ... range kinds\<close> loops of \<^verbatim>\<open>GroupVersion.KindForGroupVersionKinds\<close>:
  each returns from the function at the first element that passes its test (\<open>Some\<close>),
  or falls through to the code after it (\<open>None\<close>).
\<close>

fun exact_loop :: "GroupVersion \<Rightarrow> GroupVersionKind list \<Rightarrow> GroupVersionKind option" where
  "exact_loop gv [] = None"
| "exact_loop gv (gvk # kinds) =
     (if GVK_Group gvk = GV_Group gv \<and> GVK_Version gvk = GV_Version gv then Some gvk
      else exact_loop gv kinds)"

fun group_loop :: "GroupVersion \<Rightarrow> GroupVersionKind list \<Rightarrow> GroupVersionKind option" where
  "group_loop gv [] = None"
| "group_loop gv (gvk # kinds) =
     (if GVK_Group gvk = GV_Group gv then Some (GroupVersion_WithKind gv (GVK_Kind gvk))
      else group_loop gv kinds)"

definition GroupVersion_KindForGroupVersionKinds ::
  "GroupVersion \<Rightarrow> GroupVersionKind list \<Rightarrow> GroupVersionKind \<times> bool" where
  "GroupVersion_KindForGroupVersionKinds gv kinds =
     (case exact_loop gv kinds of
        Some target \<Rightarrow> (target, True)
      | None \<Rightarrow>
          (case group_loop gv kinds of
             Some target \<Rightarrow> (target, True)
           | None \<Rightarrow> (GroupVersionKind_zero, False)))"

text \<open>
  \<^verbatim>\<open>bestMatch\<close>: the inner loop over \<^verbatim>\<open>kinds\<close> for one target, the outer loop over
  \<^verbatim>\<open>targets\<close>, and the fall-back \<^verbatim>\<open>targets[0]\<close>.
\<close>

fun bestMatch_inner :: "GroupVersionKind list \<Rightarrow> GroupVersionKind \<Rightarrow> GroupVersionKind option" where
  "bestMatch_inner [] gvk = None"
| "bestMatch_inner (k # kinds) gvk = (if k = gvk then Some k else bestMatch_inner kinds gvk)"

fun bestMatch_outer :: "GroupVersionKind list \<Rightarrow> GroupVersionKind list \<Rightarrow> GroupVersionKind option" where
  "bestMatch_outer kinds [] = None"
| "bestMatch_outer kinds (gvk # targets) =
     (case bestMatch_inner kinds gvk of
        Some k \<Rightarrow> Some k
      | None \<Rightarrow> bestMatch_outer kinds targets)"

definition bestMatch :: "GroupVersionKind list \<Rightarrow> GroupVersionKind list \<Rightarrow> panic + GroupVersionKind" where
  "bestMatch kinds targets =
     (case bestMatch_outer kinds targets of
        Some k \<Rightarrow> Inr k
      | None \<Rightarrow> index_at targets 0)"

text \<open>
  The collecting loop of \<^verbatim>\<open>GroupVersions.KindForGroupVersionKinds\<close>, with the slice
  \<^verbatim>\<open>targets\<close> as its accumulator.
\<close>

fun collect_targets ::
  "GroupVersions \<Rightarrow> GroupVersionKind list \<Rightarrow> GroupVersionKind list \<Rightarrow> GroupVersionKind list" where
  "collect_targets [] kinds targets = targets"
| "collect_targets (gv # gvs) kinds targets =
     (case GroupVersion_KindForGroupVersionKinds gv kinds of
        (target, ok) \<Rightarrow>
          if \<not> ok then collect_targets gvs kinds targets
          else collect_targets gvs kinds (targets @ [target]))"

definition GroupVersions_KindForGroupVersionKinds ::
  "GroupVersions \<Rightarrow> GroupVersionKind list \<Rightarrow> panic + (GroupVersionKind \<times> bool)" where
  "GroupVersions_KindForGroupVersionKinds gvs kinds =
     (let targets = collect_targets gvs kinds [] in
      if length targets = 1 then pbind (index_at targets 0) (\<lambda>t. Inr (t, True))
      else if length targets > 1 then pbind (bestMatch kinds targets) (\<lambda>t. Inr (t, True))
      else Inr (GroupVersionKind_zero, False))"

subsection \<open>Identifiers and the serialization tag pair\<close>

text \<open>The loop of \<^verbatim>\<open>GroupVersions.Identifier\<close> appends one rendering per element.\<close>

fun render_loop :: "GroupVersions \<Rightarrow> string list \<Rightarrow> string list" where
  "render_loop [] groupVersions = groupVersions"
| "render_loop (gv # gvs) groupVersions = render_loop gvs (groupVersions @ [GroupVersion_String gv])"

definition GroupVersions_Identifier :: "GroupVersions \<Rightarrow> string" where
  "GroupVersions_Identifier gvs = ''['' @ Join (render_loop gvs []) '','' @ '']''"

definition GroupVersionKind_ToAPIVersionAndKind :: "GroupVersionKind \<Rightarrow> string \<times> string" where
  "GroupVersionKind_ToAPIVersionAndKind gvk =
     (if GroupVersionKind_Empty gvk then ([], [])
      else (GroupVersion_String (GroupVersionKind_GroupVersion gvk), GVK_Kind gvk))"

definition FromAPIVersionAndKind :: "string \<Rightarrow> string \<Rightarrow> panic + GroupVersionKind" where
  "FromAPIVersionAndKind apiVersion kind =
     pbind (ParseGroupVersion apiVersion) (\<lambda>r.
       case r of
         Inr gv \<Rightarrow> Inr \<lparr>GVK_Group = GV_Group gv, GVK_Version = GV_Version gv, GVK_Kind = kind\<rparr>
       | Inl err \<Rightarrow> Inr \<lparr>GVK_Group = [], GVK_Version = [], GVK_Kind = kind\<rparr>)"

subsection \<open>Reference definitions, from the specification's words\<close>

text \<open>
  The text before the first occurrence of a separator, and the text after it (empty when
  the separator does not occur).
\<close>

definition before_first :: "char \<Rightarrow> string \<Rightarrow> string" where
  "before_first c s = takeWhile (\<lambda>x. x \<noteq> c) s"

definition after_first :: "char \<Rightarrow> string \<Rightarrow> string" where
  "after_first c s = drop 1 (dropWhile (\<lambda>x. x \<noteq> c) s)"

text \<open>
  The results of the single-group-version probe over a preference list, successes only, in
  the order of the list; and the resolution rule over them: none gives not-found, one gives
  that one, several give the first that occurs in \<open>kinds\<close> or else the first.
\<close>

definition collected_results :: "GroupVersions \<Rightarrow> GroupVersionKind list \<Rightarrow> GroupVersionKind list" where
  "collected_results gvs kinds =
     map fst (filter snd (map (\<lambda>gv. GroupVersion_KindForGroupVersionKinds gv kinds) gvs))"

definition resolve_spec :: "GroupVersions \<Rightarrow> GroupVersionKind list \<Rightarrow> GroupVersionKind \<times> bool" where
  "resolve_spec gvs kinds =
     (case collected_results gvs kinds of
        [] \<Rightarrow> (GroupVersionKind_zero, False)
      | [t] \<Rightarrow> (t, True)
      | t # u # us \<Rightarrow>
          (case find (\<lambda>c. c \<in> set kinds) (t # u # us) of
             Some c \<Rightarrow> (c, True)
           | None \<Rightarrow> (t, True)))"

section \<open>Properties\<close>

subsection \<open>Sequencing of panics\<close>

lemma pbind_Inr [simp]: "pbind (Inr x) f = f x"
  by (simp add: pbind_def)

lemma pbind_Inl [simp]: "pbind (Inl p) f = Inl p"
  by (simp add: pbind_def)

lemma exact_loop_find:
  "exact_loop gv kinds =
     find (\<lambda>k. GVK_Group k = GV_Group gv \<and> GVK_Version k = GV_Version gv) kinds"
  by (induction kinds) simp_all

lemma group_loop_find:
  "group_loop gv kinds =
     map_option (\<lambda>k. GroupVersion_WithKind gv (GVK_Kind k))
       (find (\<lambda>k. GVK_Group k = GV_Group gv) kinds)"
  by (induction kinds) simp_all

text \<open>
  Claim C2. The single-group-version probe returns, with \<open>ok = true\<close>, the first element
  of \<open>kinds\<close> whose group and version both equal those of \<open>gv\<close>; failing that, with
  \<open>ok = true\<close>, \<open>gv.WithKind\<close> of the kind of the first element whose group equals that of
  \<open>gv\<close>, which is the group and the version of \<open>gv\<close> with that element's kind (the
  element's own version is dropped); failing that, the zero value, all three fields empty,
  with \<open>ok = false\<close>.
\<close>

theorem probe_two_pass:
  "GroupVersion_KindForGroupVersionKinds gv kinds =
     (case find (\<lambda>k. GVK_Group k = GV_Group gv \<and> GVK_Version k = GV_Version gv) kinds of
        Some k \<Rightarrow> (k, True)
      | None \<Rightarrow>
          (case find (\<lambda>k. GVK_Group k = GV_Group gv) kinds of
             Some k \<Rightarrow>
               (\<lparr>GVK_Group = GV_Group gv, GVK_Version = GV_Version gv, GVK_Kind = GVK_Kind k\<rparr>,
                True)
           | None \<Rightarrow> (\<lparr>GVK_Group = [], GVK_Version = [], GVK_Kind = []\<rparr>, False)))
   \<and> GroupVersion_WithKind gv kind =
       \<lparr>GVK_Group = GV_Group gv, GVK_Version = GV_Version gv, GVK_Kind = kind\<rparr>"
  by (simp add: GroupVersion_KindForGroupVersionKinds_def exact_loop_find group_loop_find
      GroupVersion_WithKind_def GroupVersionKind_zero_def split: option.splits)

lemma exact_loop_Some:
  "exact_loop gv kinds = Some t \<Longrightarrow>
     t \<in> set kinds \<and> GVK_Group t = GV_Group gv \<and> GVK_Version t = GV_Version gv"
  by (induction kinds) (auto split: if_splits)

lemma group_loop_Some:
  "group_loop gv kinds = Some t \<Longrightarrow>
     GVK_Group t = GV_Group gv \<and> GVK_Version t = GV_Version gv \<and> GVK_Kind t \<in> GVK_Kind ` set kinds"
  by (induction kinds) (auto split: if_splits simp: GroupVersion_WithKind_def)

text \<open>
  Claim C10. Whenever the single-group-version probe returns \<open>ok = true\<close>, the group of
  the result is the group of \<open>gv\<close>, the result occurs in \<open>kinds\<close> or carries the version of
  \<open>gv\<close>, and its kind is the kind of some element of \<open>kinds\<close>.
\<close>

theorem probe_result_shape:
  assumes "GroupVersion_KindForGroupVersionKinds gv kinds = (t, True)"
  shows "GVK_Group t = GV_Group gv \<and> (t \<in> set kinds \<or> GVK_Version t = GV_Version gv)
         \<and> (\<exists>k \<in> set kinds. GVK_Kind t = GVK_Kind k)"
proof (cases "exact_loop gv kinds")
  case (Some e)
  with assms have "t = e"
    by (simp add: GroupVersion_KindForGroupVersionKinds_def)
  with Some exact_loop_Some [of gv kinds t] show ?thesis by auto
next
  case None
  with assms obtain s where s: "group_loop gv kinds = Some s" and "t = s"
    by (auto simp: GroupVersion_KindForGroupVersionKinds_def split: option.splits)
  with group_loop_Some [of gv kinds t] show ?thesis by auto
qed

theorem probe_result_shape_witness:
  "GroupVersion_KindForGroupVersionKinds \<lparr>GV_Group = ''g1'', GV_Version = ''v3''\<rparr>
       [\<lparr>GVK_Group = ''g1'', GVK_Version = ''v1'', GVK_Kind = ''K''\<rparr>]
     = (\<lparr>GVK_Group = ''g1'', GVK_Version = ''v3'', GVK_Kind = ''K''\<rparr>, True)
   \<and> GVK_Group \<lparr>GVK_Group = ''g1'', GVK_Version = ''v3'', GVK_Kind = ''K''\<rparr> = ''g1''
   \<and> GVK_Version \<lparr>GVK_Group = ''g1'', GVK_Version = ''v3'', GVK_Kind = ''K''\<rparr> = ''v3''"
proof -
  have h: "GroupVersion_KindForGroupVersionKinds \<lparr>GV_Group = ''g1'', GV_Version = ''v3''\<rparr>
       [\<lparr>GVK_Group = ''g1'', GVK_Version = ''v1'', GVK_Kind = ''K''\<rparr>]
     = (\<lparr>GVK_Group = ''g1'', GVK_Version = ''v3'', GVK_Kind = ''K''\<rparr>, True)"
    by (simp add: GroupVersion_KindForGroupVersionKinds_def GroupVersion_WithKind_def)
  from probe_result_shape [OF h] h show ?thesis by simp
qed

subsection \<open>Resolution over a preference list\<close>

lemma collect_targets_acc:
  "collect_targets gvs kinds targets = targets @ collected_results gvs kinds"
  by (induction gvs arbitrary: targets) (auto simp: collected_results_def split: prod.splits)

lemma bestMatch_inner_mem:
  "bestMatch_inner kinds gvk = (if gvk \<in> set kinds then Some gvk else None)"
  by (induction kinds) auto

lemma bestMatch_outer_find:
  "bestMatch_outer kinds targets = find (\<lambda>c. c \<in> set kinds) targets"
  by (induction targets) (simp_all add: bestMatch_inner_mem)

lemma index_at_0_Cons [simp]: "index_at (x # xs) 0 = Inr x"
  by (simp add: index_at_def)

text \<open>
  Claim C1. \<open>GroupVersions.KindForGroupVersionKinds\<close> never panics and returns what the
  resolution rule gives on the successful probe results collected in preference order.
\<close>

theorem resolver_refines_spec:
  "GroupVersions_KindForGroupVersionKinds gvs kinds = Inr (resolve_spec gvs kinds)"
proof (cases "collected_results gvs kinds")
  case Nil
  then show ?thesis
    by (simp add: GroupVersions_KindForGroupVersionKinds_def resolve_spec_def
        collect_targets_acc [of gvs kinds "[]", simplified])
next
  case (Cons t ts)
  note outer = Cons
  show ?thesis
  proof (cases ts)
    case Nil
    with outer show ?thesis
      by (simp add: GroupVersions_KindForGroupVersionKinds_def resolve_spec_def
          collect_targets_acc [of gvs kinds "[]", simplified])
  next
    case (Cons u us)
    with outer have c: "collect_targets gvs kinds [] = t # u # us"
      by (simp add: collect_targets_acc [of gvs kinds "[]", simplified])
    show ?thesis
      using outer Cons
      by (simp add: GroupVersions_KindForGroupVersionKinds_def resolve_spec_def c Let_def
          bestMatch_def bestMatch_outer_find split: option.splits)
  qed
qed

lemma foldl_Join_acc:
  "foldl (\<lambda>b s. b @ sep @ s) e es = e @ concat (map (\<lambda>s. sep @ s) es)"
  by (induction es arbitrary: e) simp_all

lemma Join_Cons: "Join (e # es) sep = e @ concat (map (\<lambda>s. sep @ s) es)"
  by (simp add: foldl_Join_acc)

lemma render_loop_acc:
  "render_loop gvs acc = acc @ map GroupVersion_String gvs"
  by (induction gvs arbitrary: acc) simp_all

text \<open>
  Claim C7. \<open>GroupVersions.Identifier\<close> is an opening bracket, the renderings of the
  elements in order with a comma before each but the first, and a closing bracket; for
  \<open>[{g1,v1},{"",v2}]\<close> it is the literal \<open>[g1/v1,v2]\<close>.
\<close>

theorem identifier_rendering:
  "GroupVersions_Identifier gvs =
     ''['' @ (case map GroupVersion_String gvs of
               [] \<Rightarrow> []
             | r # rs \<Rightarrow> r @ concat (map (\<lambda>s. '','' @ s) rs)) @ '']''
   \<and> GroupVersions_Identifier
       [\<lparr>GV_Group = ''g1'', GV_Version = ''v1''\<rparr>, \<lparr>GV_Group = [], GV_Version = ''v2''\<rparr>]
     = ''[g1/v1,v2]''"
proof
  show "GroupVersions_Identifier gvs =
     ''['' @ (case map GroupVersion_String gvs of
               [] \<Rightarrow> []
             | r # rs \<Rightarrow> r @ concat (map (\<lambda>s. '','' @ s) rs)) @ '']''"
    by (cases gvs)
      (simp_all add: GroupVersions_Identifier_def render_loop_acc Join_Cons comp_def
        del: Join.simps(2))
  show "GroupVersions_Identifier
       [\<lparr>GV_Group = ''g1'', GV_Version = ''v1''\<rparr>, \<lparr>GV_Group = [], GV_Version = ''v2''\<rparr>]
     = ''[g1/v1,v2]''"
    by (simp add: GroupVersions_Identifier_def GroupVersion_String_def)
qed

subsection \<open>Splitting a string at its first separator\<close>

lemma split_at_first:
  "c \<in> set s \<Longrightarrow> s = before_first c s @ c # after_first c s"
proof -
  assume "c \<in> set s"
  then have "dropWhile (\<lambda>x. x \<noteq> c) s \<noteq> []"
    by (simp add: dropWhile_eq_Nil_conv)
  moreover have "\<not> (hd (dropWhile (\<lambda>x. x \<noteq> c) s) \<noteq> c)" if "dropWhile (\<lambda>x. x \<noteq> c) s \<noteq> []"
    using that by (rule hd_dropWhile)
  ultimately obtain r where r: "dropWhile (\<lambda>x. x \<noteq> c) s = c # r"
    by (cases "dropWhile (\<lambda>x. x \<noteq> c) s") auto
  have "s = takeWhile (\<lambda>x. x \<noteq> c) s @ dropWhile (\<lambda>x. x \<noteq> c) s"
    by simp
  with r show ?thesis
    by (simp add: before_first_def after_first_def)
qed

lemma before_first_free: "c \<notin> set (before_first c s)"
  by (auto simp: before_first_def dest: set_takeWhileD)

lemma no_sep_first:
  "c \<notin> set s \<Longrightarrow> before_first c s = s \<and> after_first c s = []"
proof -
  assume "c \<notin> set s"
  then have "dropWhile (\<lambda>x. x \<noteq> c) s = []" and "takeWhile (\<lambda>x. x \<noteq> c) s = s"
    by (auto simp: takeWhile_eq_all_conv dropWhile_eq_Nil_conv)
  then show ?thesis
    unfolding before_first_def after_first_def by (simp only: drop_Nil simp_thms)
qed

lemma first_of_append:
  "c \<notin> set g \<Longrightarrow> before_first c (g @ c # v) = g \<and> after_first c (g @ c # v) = v"
  by (induction g) (auto simp: before_first_def after_first_def)

lemma Count_0_iff: "Count s c = 0 \<longleftrightarrow> c \<notin> set s"
  by (auto simp: Count_def filter_empty_conv)

lemma Count_nonneg: "0 \<le> Count s c"
  by (simp add: Count_def)

lemma Count_append: "Count (s @ t) c = Count s c + Count t c"
  by (simp add: Count_def)

lemma Count_Cons: "Count (x # s) c = (if x = c then 1 else 0) + Count s c"
  by (simp add: Count_def)

lemma Count_split:
  assumes "c \<in> set s"
  shows "Count s c = 1 + Count (after_first c s) c"
proof -
  have "Count s c = Count (before_first c s @ c # after_first c s) c"
    using split_at_first [OF assms] by simp
  also have "\<dots> = Count (before_first c s) c + (1 + Count (after_first c s) c)"
    by (simp add: Count_append Count_Cons)
  also have "Count (before_first c s) c = 0"
    using before_first_free by (simp add: Count_0_iff)
  finally show ?thesis by simp
qed

lemma Index_found: "c \<in> set s \<Longrightarrow> Index s c = int (length (before_first c s))"
  by (simp add: Index_def before_first_def)

lemma Index_missing: "c \<notin> set s \<Longrightarrow> Index s c = - 1"
  by (simp add: Index_def)

lemma before_first_length: "c \<in> set s \<Longrightarrow> length (before_first c s) < length s"
  using split_at_first [of c s] by (metis length_append length_Cons less_add_Suc1 add_Suc_right)

lemma slice_to_Index:
  "c \<in> set s \<Longrightarrow> slice_to s (Index s c) = Inr (before_first c s)"
  using before_first_length [of c s]
  by (simp add: slice_to_def Index_found) (simp add: before_first_def takeWhile_eq_take [symmetric])

lemma slice_from_Index:
  assumes "c \<in> set s"
  shows "slice_from s (Index s c + 1) = Inr (after_first c s)"
proof -
  have "nat (int (length (before_first c s)) + 1) = Suc (length (before_first c s))"
    by simp
  moreover have "drop (Suc (length (before_first c s))) s = after_first c s"
    by (simp add: after_first_def before_first_def dropWhile_eq_drop)
  ultimately show ?thesis
    using before_first_length [OF assms] by (simp add: slice_from_def Index_found [OF assms])
qed

lemma take_Index: "c \<in> set s \<Longrightarrow> take (nat (Index s c)) s = before_first c s"
  by (simp add: Index_found) (simp add: before_first_def takeWhile_eq_take [symmetric])

lemma drop_Index: "c \<in> set s \<Longrightarrow> drop (nat (Index s c + 1)) s = after_first c s"
  by (simp add: Index_found nat_add_distrib)
     (simp add: after_first_def before_first_def dropWhile_eq_drop)

lemma ParseGroupResource_eq:
  "ParseGroupResource s =
     Inr \<lparr>GR_Group = after_first CHR ''.'' s, GR_Resource = before_first CHR ''.'' s\<rparr>"
proof (cases "CHR ''.'' \<in> set s")
  case True
  then have "0 \<le> Index s CHR ''.''"
    by (simp add: Index_found)
  with True show ?thesis
    by (simp add: ParseGroupResource_def Let_def slice_to_Index slice_from_Index)
next
  case False
  then show ?thesis
    by (simp add: ParseGroupResource_def Index_missing no_sep_first)
qed

lemma ParseGroupKind_eq:
  "ParseGroupKind s =
     Inr \<lparr>GK_Group = after_first CHR ''.'' s, GK_Kind = before_first CHR ''.'' s\<rparr>"
proof (cases "CHR ''.'' \<in> set s")
  case True
  then have "Index s CHR ''.'' \<noteq> - 1"
    by (simp add: Index_found)
  with True show ?thesis
    by (simp add: ParseGroupKind_def Let_def slice_to_Index slice_from_Index)
next
  case False
  then show ?thesis
    by (simp add: ParseGroupKind_def Index_missing no_sep_first)
qed

lemma Count_two_mem:
  assumes "2 \<le> Count s c"
  shows "c \<in> set s" and "c \<in> set (after_first c s)"
proof -
  from assms show m: "c \<in> set s"
    using Count_0_iff [of s c] by auto
  from assms Count_split [OF m] have "Count (after_first c s) c \<noteq> 0"
    by simp
  then show "c \<in> set (after_first c s)"
    by (simp add: Count_0_iff)
qed

lemma genSplit_two:
  assumes "c \<in> set s" and "c \<in> set (after_first c s)"
  shows "genSplit s c (Suc (Suc 0)) =
           [before_first c s, before_first c (after_first c s), after_first c (after_first c s)]"
proof -
  have i1: "\<not> Index s c < 0" and i2: "\<not> Index (after_first c s) c < 0"
    using assms by (simp_all add: Index_found)
  show ?thesis
    using i1 i2 by (simp add: Let_def take_Index drop_Index assms)
qed

lemma SplitN_three:
  assumes "2 \<le> Count s c"
  shows "SplitN s c 3 =
           [before_first c s, before_first c (after_first c s), after_first c (after_first c s)]"
proof -
  have "SplitN s c 3 = genSplit s c (Suc (Suc 0))"
    by (simp add: SplitN_def numeral_2_eq_2)
  with genSplit_two [OF Count_two_mem [OF assms]] show ?thesis
    by simp
qed

lemma index_at_three:
  "index_at [a, b, c] 0 = Inr a" "index_at [a, b, c] 1 = Inr b" "index_at [a, b, c] 2 = Inr c"
  by (simp_all add: index_at_def)

lemma ParseResourceArg_eq:
  "ParseResourceArg arg =
     Inr (if 2 \<le> Count arg CHR ''.''
          then Some \<lparr>GVR_Group = after_first CHR ''.'' (after_first CHR ''.'' arg),
                     GVR_Version = before_first CHR ''.'' (after_first CHR ''.'' arg),
                     GVR_Resource = before_first CHR ''.'' arg\<rparr>
          else None,
          \<lparr>GR_Group = after_first CHR ''.'' arg, GR_Resource = before_first CHR ''.'' arg\<rparr>)"
  by (simp add: ParseResourceArg_def ParseGroupResource_eq SplitN_three index_at_three)

lemma ParseKindArg_eq:
  "ParseKindArg arg =
     Inr (if 2 \<le> Count arg CHR ''.''
          then Some \<lparr>GVK_Group = after_first CHR ''.'' (after_first CHR ''.'' arg),
                     GVK_Version = before_first CHR ''.'' (after_first CHR ''.'' arg),
                     GVK_Kind = before_first CHR ''.'' arg\<rparr>
          else None,
          \<lparr>GK_Group = after_first CHR ''.'' arg, GK_Kind = before_first CHR ''.'' arg\<rparr>)"
  by (simp add: ParseKindArg_def ParseGroupKind_eq SplitN_three index_at_three)

lemma three_way_split:
  assumes "2 \<le> Count arg c"
  shows "arg = before_first c arg @ [c] @ before_first c (after_first c arg) @ [c]
                 @ after_first c (after_first c arg)"
proof -
  note m = Count_two_mem [OF assms]
  have "arg = before_first c arg @ c # after_first c arg"
    by (rule split_at_first [OF m(1)])
  also have "after_first c arg =
      before_first c (after_first c arg) @ c # after_first c (after_first c arg)"
    by (rule split_at_first [OF m(2)])
  finally show ?thesis by simp
qed

lemma ParseGroupVersion_none:
  assumes "CHR ''/'' \<notin> set s"
  shows "ParseGroupVersion s = Inr (Inr \<lparr>GV_Group = [], GV_Version = s\<rparr>)"
  using assms by (auto simp: ParseGroupVersion_def GroupVersion_zero_def Count_0_iff)

lemma ParseGroupVersion_one:
  assumes "Count s CHR ''/'' = 1"
  shows "ParseGroupVersion s =
           Inr (Inr \<lparr>GV_Group = before_first CHR ''/'' s, GV_Version = after_first CHR ''/'' s\<rparr>)"
proof -
  have m: "CHR ''/'' \<in> set s"
    using assms Count_0_iff [of s "CHR ''/''"] by auto
  show ?thesis
  proof (cases "s = ''/''")
    case True
    then show ?thesis
      by (simp add: ParseGroupVersion_def GroupVersion_zero_def before_first_def after_first_def)
  next
    case False
    with m assms show ?thesis
      by (auto simp: ParseGroupVersion_def Let_def slice_to_Index slice_from_Index)
  qed
qed

lemma ParseGroupVersion_many:
  assumes "2 \<le> Count s CHR ''/''"
  shows "ParseGroupVersion s = Inr (Inl (Errorf (''unexpected GroupVersion string: '' @ s)))"
proof -
  have "s \<noteq> []" "s \<noteq> ''/''"
    using assms by (auto simp: Count_def)
  with assms show ?thesis
    by (simp add: ParseGroupVersion_def)
qed

subsection \<open>Round trips and totality of the parsers\<close>

lemma ParseGroupVersion_rendered:
  assumes "g \<noteq> []" and "CHR ''/'' \<notin> set g" and "CHR ''/'' \<notin> set v"
  shows "ParseGroupVersion (g @ ''/'' @ v) = Inr (Inr \<lparr>GV_Group = g, GV_Version = v\<rparr>)"
proof -
  have "Count (g @ ''/'' @ v) CHR ''/'' = 1"
    using assms Count_0_iff [of g "CHR ''/''"] Count_0_iff [of v "CHR ''/''"]
    by (simp add: Count_append Count_Cons)
  then have "ParseGroupVersion (g @ ''/'' @ v) =
      Inr (Inr \<lparr>GV_Group = before_first CHR ''/'' (g @ ''/'' @ v),
                 GV_Version = after_first CHR ''/'' (g @ ''/'' @ v)\<rparr>)"
    by (rule ParseGroupVersion_one)
  with first_of_append [OF assms(2), of v] show ?thesis
    by simp
qed

text \<open>
  Claim C6. Rendering a group-version whose group is non-empty and whose fields hold no
  slash, then parsing the rendering, gives the group-version back; with an empty group the
  rendering is the version itself, which parses to the empty group and that version.
\<close>

theorem GroupVersion_roundtrip:
  "(g \<noteq> [] \<and> CHR ''/'' \<notin> set g \<and> CHR ''/'' \<notin> set v \<longrightarrow>
      ParseGroupVersion (GroupVersion_String \<lparr>GV_Group = g, GV_Version = v\<rparr>)
        = Inr (Inr \<lparr>GV_Group = g, GV_Version = v\<rparr>))
   \<and> (CHR ''/'' \<notin> set v \<longrightarrow>
        GroupVersion_String \<lparr>GV_Group = [], GV_Version = v\<rparr> = v
        \<and> ParseGroupVersion v = Inr (Inr \<lparr>GV_Group = [], GV_Version = v\<rparr>))"
  using ParseGroupVersion_rendered [of g v] ParseGroupVersion_none [of v]
  by (simp add: GroupVersion_String_def)

theorem GroupVersion_roundtrip_witness:
  "ParseGroupVersion (GroupVersion_String \<lparr>GV_Group = ''apps'', GV_Version = ''v1''\<rparr>)
     = Inr (Inr \<lparr>GV_Group = ''apps'', GV_Version = ''v1''\<rparr>)
   \<and> GroupVersion_String \<lparr>GV_Group = [], GV_Version = ''v1''\<rparr> = ''v1''
   \<and> ParseGroupVersion ''v1'' = Inr (Inr \<lparr>GV_Group = [], GV_Version = ''v1''\<rparr>)"
  using GroupVersion_roundtrip [of "''apps''" "''v1''"] by simp

text \<open>
  Claim C9. For a group-version-kind whose group and version hold no slash,
  \<open>FromAPIVersionAndKind\<close> applied to the pair of \<open>ToAPIVersionAndKind\<close> gives it back; the
  empty group-version-kind maps to the pair of empty strings and back.
\<close>

theorem tag_pair_roundtrip:
  assumes "CHR ''/'' \<notin> set (GVK_Group gvk)" and "CHR ''/'' \<notin> set (GVK_Version gvk)"
  shows "(case GroupVersionKind_ToAPIVersionAndKind gvk of
            (apiVersion, kind) \<Rightarrow> FromAPIVersionAndKind apiVersion kind) = Inr gvk
         \<and> GroupVersionKind_ToAPIVersionAndKind GroupVersionKind_zero = ([], [])
         \<and> FromAPIVersionAndKind [] [] = Inr GroupVersionKind_zero"
proof (intro conjI)
  show "GroupVersionKind_ToAPIVersionAndKind GroupVersionKind_zero = ([], [])"
    by (simp add: GroupVersionKind_ToAPIVersionAndKind_def GroupVersionKind_Empty_def
        GroupVersionKind_zero_def)
  show "FromAPIVersionAndKind [] [] = Inr GroupVersionKind_zero"
    by (simp add: FromAPIVersionAndKind_def ParseGroupVersion_def GroupVersion_zero_def
        GroupVersionKind_zero_def)
  show "(case GroupVersionKind_ToAPIVersionAndKind gvk of
            (apiVersion, kind) \<Rightarrow> FromAPIVersionAndKind apiVersion kind) = Inr gvk"
  proof (cases "GroupVersionKind_Empty gvk")
    case True
    then have "gvk = \<lparr>GVK_Group = [], GVK_Version = [], GVK_Kind = []\<rparr>"
      by (cases gvk) (simp add: GroupVersionKind_Empty_def)
    with True show ?thesis
      by (simp add: GroupVersionKind_ToAPIVersionAndKind_def FromAPIVersionAndKind_def
          ParseGroupVersion_def GroupVersion_zero_def)
  next
    case False
    show ?thesis
    proof (cases "GVK_Group gvk = []")
      case True
      with False assms(2) show ?thesis
        by (cases gvk)
          (simp add: GroupVersionKind_ToAPIVersionAndKind_def FromAPIVersionAndKind_def
            GroupVersionKind_GroupVersion_def GroupVersion_String_def ParseGroupVersion_none)
    next
      case nonempty: False
      with False assms show ?thesis
        by (cases gvk)
          (simp add: GroupVersionKind_ToAPIVersionAndKind_def FromAPIVersionAndKind_def
            GroupVersionKind_GroupVersion_def GroupVersion_String_def
            ParseGroupVersion_rendered [simplified])
    qed
  qed
qed

theorem tag_pair_roundtrip_witness:
  "CHR ''/'' \<notin> set ''apps'' \<and> CHR ''/'' \<notin> set ''v1''
   \<and> FromAPIVersionAndKind ''apps/v1'' ''Deployment''
       = Inr \<lparr>GVK_Group = ''apps'', GVK_Version = ''v1'', GVK_Kind = ''Deployment''\<rparr>"
  using tag_pair_roundtrip [of "\<lparr>GVK_Group = ''apps'', GVK_Version = ''v1'', GVK_Kind = ''Deployment''\<rparr>"]
  by (simp add: GroupVersionKind_ToAPIVersionAndKind_def GroupVersionKind_Empty_def
      GroupVersionKind_GroupVersion_def GroupVersion_String_def)

text \<open>
  Claim C8. \<open>ParseResourceArg\<close> and \<open>ParseKindArg\<close> return a pair on every input and
  never panic; a leading or trailing dot gives empty segments.
\<close>

theorem arg_parsers_total:
  "(\<exists>gvr gr. ParseResourceArg arg = Inr (gvr, gr))
   \<and> (\<exists>gvk gk. ParseKindArg arg = Inr (gvk, gk))
   \<and> ParseResourceArg ''.apps'' = Inr (None, \<lparr>GR_Group = ''apps'', GR_Resource = []\<rparr>)
   \<and> ParseResourceArg ''pods.v1.''
       = Inr (Some \<lparr>GVR_Group = [], GVR_Version = ''v1'', GVR_Resource = ''pods''\<rparr>,
              \<lparr>GR_Group = ''v1.'', GR_Resource = ''pods''\<rparr>)
   \<and> ParseKindArg ''.v1.apps''
       = Inr (Some \<lparr>GVK_Group = ''apps'', GVK_Version = ''v1'', GVK_Kind = []\<rparr>,
              \<lparr>GK_Group = ''v1.apps'', GK_Kind = []\<rparr>)
   \<and> ParseKindArg ''Pod.'' = Inr (None, \<lparr>GK_Group = [], GK_Kind = ''Pod''\<rparr>)"
proof (intro conjI)
  show "\<exists>gvr gr. ParseResourceArg arg = Inr (gvr, gr)"
    by (simp only: ParseResourceArg_eq) blast
  show "\<exists>gvk gk. ParseKindArg arg = Inr (gvk, gk)"
    by (simp only: ParseKindArg_eq) blast
  show "ParseResourceArg ''.apps'' = Inr (None, \<lparr>GR_Group = ''apps'', GR_Resource = []\<rparr>)"
    by (simp add: ParseResourceArg_eq Count_def before_first_def after_first_def)
  show "ParseResourceArg ''pods.v1.''
       = Inr (Some \<lparr>GVR_Group = [], GVR_Version = ''v1'', GVR_Resource = ''pods''\<rparr>,
              \<lparr>GR_Group = ''v1.'', GR_Resource = ''pods''\<rparr>)"
    by (simp add: ParseResourceArg_eq Count_def before_first_def after_first_def)
  show "ParseKindArg ''.v1.apps''
       = Inr (Some \<lparr>GVK_Group = ''apps'', GVK_Version = ''v1'', GVK_Kind = []\<rparr>,
              \<lparr>GK_Group = ''v1.apps'', GK_Kind = []\<rparr>)"
    by (simp add: ParseKindArg_eq Count_def before_first_def after_first_def)
  show "ParseKindArg ''Pod.'' = Inr (None, \<lparr>GK_Group = [], GK_Kind = ''Pod''\<rparr>)"
    by (simp add: ParseKindArg_eq Count_def before_first_def after_first_def)
qed

subsection \<open>The cases of the parsers\<close>

lemma bestMatch_total: "targets \<noteq> [] \<Longrightarrow> \<exists>k. bestMatch kinds targets = Inr k"
  by (cases targets) (auto simp: bestMatch_def split: option.splits)

lemma resolver_total: "\<exists>r. GroupVersions_KindForGroupVersionKinds gvs kinds = Inr r"
proof (cases "collect_targets gvs kinds []")
  case Nil
  then show ?thesis
    by (auto simp: GroupVersions_KindForGroupVersionKinds_def)
next
  case (Cons t ts)
  then obtain k where "bestMatch kinds (collect_targets gvs kinds []) = Inr k"
    using bestMatch_total [of "collect_targets gvs kinds []" kinds] by auto
  with Cons show ?thesis
    by (auto simp: GroupVersions_KindForGroupVersionKinds_def Let_def)
qed

lemma ParseGroupVersion_total: "\<exists>r. ParseGroupVersion s = Inr r"
proof -
  consider "Count s CHR ''/'' = 0" | "Count s CHR ''/'' = 1" | "2 \<le> Count s CHR ''/''"
    using Count_nonneg [of s "CHR ''/''"] by linarith
  then show ?thesis
  proof cases
    case 1
    then show ?thesis by (simp add: ParseGroupVersion_none Count_0_iff)
  next
    case 2
    then show ?thesis by (simp add: ParseGroupVersion_one)
  next
    case 3
    then show ?thesis by (simp add: ParseGroupVersion_many)
  qed
qed

lemma FromAPIVersionAndKind_total: "\<exists>r. FromAPIVersionAndKind a k = Inr r"
proof -
  obtain r where "ParseGroupVersion a = Inr r"
    using ParseGroupVersion_total by blast
  then show ?thesis
    by (cases r) (simp_all add: FromAPIVersionAndKind_def)
qed

lemma ParseGroupVersion_error_iff:
  "(\<exists>e. ParseGroupVersion s = Inr (Inl e)) \<longleftrightarrow> 2 \<le> Count s CHR ''/''"
proof -
  consider "Count s CHR ''/'' = 0" | "Count s CHR ''/'' = 1" | "2 \<le> Count s CHR ''/''"
    using Count_nonneg [of s "CHR ''/''"] by linarith
  then show ?thesis
  proof cases
    case 1
    then have "CHR ''/'' \<notin> set s"
      by (simp add: Count_0_iff)
    with 1 show ?thesis by (simp add: ParseGroupVersion_none)
  next
    case 2
    then show ?thesis by (simp add: ParseGroupVersion_one [OF 2])
  next
    case 3
    then show ?thesis by (simp add: ParseGroupVersion_many)
  qed
qed

lemma one_sep_split:
  "Count s c = 1 \<Longrightarrow> s = before_first c s @ [c] @ after_first c s"
  using split_at_first [of c s] Count_0_iff [of s c] by auto

text \<open>
  Claim C3. \<open>ParseGroupVersion\<close> returns the empty group and the whole string when there is
  no slash, the two sides of the slash when there is exactly one, an error when there are
  two or more, and the empty group-version for the empty string and for a lone slash. It
  returns an error in no other case, and no operation of the package panics.
\<close>

theorem ParseGroupVersion_cases:
  "(Count s CHR ''/'' = 0 \<longrightarrow>
      ParseGroupVersion s = Inr (Inr \<lparr>GV_Group = [], GV_Version = s\<rparr>))
   \<and> (Count s CHR ''/'' = 1 \<longrightarrow>
        ParseGroupVersion s =
          Inr (Inr \<lparr>GV_Group = before_first CHR ''/'' s, GV_Version = after_first CHR ''/'' s\<rparr>)
        \<and> s = before_first CHR ''/'' s @ ''/'' @ after_first CHR ''/'' s)
   \<and> (2 \<le> Count s CHR ''/'' \<longrightarrow>
        ParseGroupVersion s = Inr (Inl (Errorf (''unexpected GroupVersion string: '' @ s))))
   \<and> ParseGroupVersion [] = Inr (Inr GroupVersion_zero)
   \<and> ParseGroupVersion ''/'' = Inr (Inr GroupVersion_zero)
   \<and> ((\<exists>e. ParseGroupVersion s = Inr (Inl e)) \<longleftrightarrow> 2 \<le> Count s CHR ''/'')
   \<and> (\<exists>r. ParseGroupResource a = Inr r) \<and> (\<exists>r. ParseGroupKind a = Inr r)
   \<and> (\<exists>r. ParseResourceArg a = Inr r) \<and> (\<exists>r. ParseKindArg a = Inr r)
   \<and> (\<exists>r. FromAPIVersionAndKind a k = Inr r)
   \<and> (\<exists>r. GroupVersions_KindForGroupVersionKinds gvs kinds = Inr r)"
proof (intro conjI impI)
  show "ParseGroupVersion [] = Inr (Inr GroupVersion_zero)"
    by (simp add: ParseGroupVersion_def)
  show "ParseGroupVersion ''/'' = Inr (Inr GroupVersion_zero)"
    by (simp add: ParseGroupVersion_def)
  show "(\<exists>e. ParseGroupVersion s = Inr (Inl e)) \<longleftrightarrow> 2 \<le> Count s CHR ''/''"
    by (rule ParseGroupVersion_error_iff)
  show "\<exists>r. ParseGroupResource a = Inr r"
    by (simp add: ParseGroupResource_eq)
  show "\<exists>r. ParseGroupKind a = Inr r"
    by (simp add: ParseGroupKind_eq)
  show "\<exists>r. ParseResourceArg a = Inr r"
    by (simp only: ParseResourceArg_eq) blast
  show "\<exists>r. ParseKindArg a = Inr r"
    by (simp only: ParseKindArg_eq) blast
  show "\<exists>r. FromAPIVersionAndKind a k = Inr r"
    by (rule FromAPIVersionAndKind_total)
  show "\<exists>r. GroupVersions_KindForGroupVersionKinds gvs kinds = Inr r"
    by (rule resolver_total)
next
  assume "Count s CHR ''/'' = 0"
  then show "ParseGroupVersion s = Inr (Inr \<lparr>GV_Group = [], GV_Version = s\<rparr>)"
    by (simp add: ParseGroupVersion_none Count_0_iff)
next
  assume one: "Count s CHR ''/'' = 1"
  then show "ParseGroupVersion s =
      Inr (Inr \<lparr>GV_Group = before_first CHR ''/'' s, GV_Version = after_first CHR ''/'' s\<rparr>)"
    by (rule ParseGroupVersion_one)
  from one show "s = before_first CHR ''/'' s @ ''/'' @ after_first CHR ''/'' s"
    by (rule one_sep_split)
next
  assume "2 \<le> Count s CHR ''/''"
  then show "ParseGroupVersion s = Inr (Inl (Errorf (''unexpected GroupVersion string: '' @ s)))"
    by (rule ParseGroupVersion_many)
qed

theorem ParseGroupVersion_cases_witness:
  "Count ''v1'' CHR ''/'' = 0
   \<and> ParseGroupVersion ''v1'' = Inr (Inr \<lparr>GV_Group = [], GV_Version = ''v1''\<rparr>)
   \<and> Count ''apps/v1'' CHR ''/'' = 1
   \<and> ParseGroupVersion ''apps/v1'' = Inr (Inr \<lparr>GV_Group = ''apps'', GV_Version = ''v1''\<rparr>)
   \<and> 2 \<le> Count ''a/b/c'' CHR ''/''
   \<and> ParseGroupVersion ''a/b/c'' = Inr (Inl (Errorf ''unexpected GroupVersion string: a/b/c''))"
proof -
  have c0: "Count ''v1'' CHR ''/'' = 0" and c1: "Count ''apps/v1'' CHR ''/'' = 1"
    and c2: "2 \<le> Count ''a/b/c'' CHR ''/''"
    by (simp_all add: Count_def)
  have f: "before_first CHR ''/'' ''apps/v1'' = ''apps''" "after_first CHR ''/'' ''apps/v1'' = ''v1''"
    by (simp_all add: before_first_def after_first_def)
  from ParseGroupVersion_cases [of "''v1''"] ParseGroupVersion_cases [of "''apps/v1''"]
    ParseGroupVersion_cases [of "''a/b/c''"] c0 c1 c2 f
  show ?thesis by simp
qed

text \<open>
  Claim C5. \<open>ParseResourceArg\<close> always returns the coarse form split at the first dot (the
  whole string and an empty group when there is no dot), and returns a precise form exactly
  when the argument holds two or more dots: resource, version and group are then the three
  parts cut at the first two dots, the group taken verbatim. \<open>ParseKindArg\<close> does the same
  with a kind in place of the resource.
\<close>

theorem arg_parsers_split:
  "ParseResourceArg arg =
     Inr (if 2 \<le> Count arg CHR ''.''
          then Some \<lparr>GVR_Group = after_first CHR ''.'' (after_first CHR ''.'' arg),
                     GVR_Version = before_first CHR ''.'' (after_first CHR ''.'' arg),
                     GVR_Resource = before_first CHR ''.'' arg\<rparr>
          else None,
          \<lparr>GR_Group = after_first CHR ''.'' arg, GR_Resource = before_first CHR ''.'' arg\<rparr>)
   \<and> ParseKindArg arg =
     Inr (if 2 \<le> Count arg CHR ''.''
          then Some \<lparr>GVK_Group = after_first CHR ''.'' (after_first CHR ''.'' arg),
                     GVK_Version = before_first CHR ''.'' (after_first CHR ''.'' arg),
                     GVK_Kind = before_first CHR ''.'' arg\<rparr>
          else None,
          \<lparr>GK_Group = after_first CHR ''.'' arg, GK_Kind = before_first CHR ''.'' arg\<rparr>)
   \<and> (2 \<le> Count arg CHR ''.'' \<longrightarrow>
        arg = before_first CHR ''.'' arg @ ''.''
              @ before_first CHR ''.'' (after_first CHR ''.'' arg) @ ''.''
              @ after_first CHR ''.'' (after_first CHR ''.'' arg))
   \<and> (CHR ''.'' \<in> set arg \<longrightarrow>
        arg = before_first CHR ''.'' arg @ ''.'' @ after_first CHR ''.'' arg)
   \<and> (CHR ''.'' \<notin> set arg \<longrightarrow>
        before_first CHR ''.'' arg = arg \<and> after_first CHR ''.'' arg = [])
   \<and> CHR ''.'' \<notin> set (before_first CHR ''.'' arg)
   \<and> CHR ''.'' \<notin> set (before_first CHR ''.'' (after_first CHR ''.'' arg))"
proof (intro conjI impI)
  show "ParseResourceArg arg =
     Inr (if 2 \<le> Count arg CHR ''.''
          then Some \<lparr>GVR_Group = after_first CHR ''.'' (after_first CHR ''.'' arg),
                     GVR_Version = before_first CHR ''.'' (after_first CHR ''.'' arg),
                     GVR_Resource = before_first CHR ''.'' arg\<rparr>
          else None,
          \<lparr>GR_Group = after_first CHR ''.'' arg, GR_Resource = before_first CHR ''.'' arg\<rparr>)"
    by (rule ParseResourceArg_eq)
  show "ParseKindArg arg =
     Inr (if 2 \<le> Count arg CHR ''.''
          then Some \<lparr>GVK_Group = after_first CHR ''.'' (after_first CHR ''.'' arg),
                     GVK_Version = before_first CHR ''.'' (after_first CHR ''.'' arg),
                     GVK_Kind = before_first CHR ''.'' arg\<rparr>
          else None,
          \<lparr>GK_Group = after_first CHR ''.'' arg, GK_Kind = before_first CHR ''.'' arg\<rparr>)"
    by (rule ParseKindArg_eq)
  show "CHR ''.'' \<notin> set (before_first CHR ''.'' arg)"
    by (rule before_first_free)
  show "CHR ''.'' \<notin> set (before_first CHR ''.'' (after_first CHR ''.'' arg))"
    by (rule before_first_free)
next
  assume "2 \<le> Count arg CHR ''.''"
  then show "arg = before_first CHR ''.'' arg @ ''.''
              @ before_first CHR ''.'' (after_first CHR ''.'' arg) @ ''.''
              @ after_first CHR ''.'' (after_first CHR ''.'' arg)"
    by (rule three_way_split)
next
  assume "CHR ''.'' \<in> set arg"
  then show "arg = before_first CHR ''.'' arg @ ''.'' @ after_first CHR ''.'' arg"
    using split_at_first [of "CHR ''.''" arg] by simp
next
  assume "CHR ''.'' \<notin> set arg"
  then show "before_first CHR ''.'' arg = arg" and "after_first CHR ''.'' arg = []"
    by (simp_all add: no_sep_first)
qed

theorem arg_parsers_split_witness:
  "2 \<le> Count ''pods.v1.apps'' CHR ''.'' \<and> CHR ''.'' \<in> set ''pods.v1.apps''
   \<and> ParseResourceArg ''pods.v1.apps''
       = Inr (Some \<lparr>GVR_Group = ''apps'', GVR_Version = ''v1'', GVR_Resource = ''pods''\<rparr>,
              \<lparr>GR_Group = ''v1.apps'', GR_Resource = ''pods''\<rparr>)
   \<and> CHR ''.'' \<notin> set ''pods''
   \<and> ParseResourceArg ''pods'' = Inr (None, \<lparr>GR_Group = [], GR_Resource = ''pods''\<rparr>)
   \<and> ParseKindArg ''Pod.apps'' = Inr (None, \<lparr>GK_Group = ''apps'', GK_Kind = ''Pod''\<rparr>)"
proof -
  have f: "before_first CHR ''.'' ''pods.v1.apps'' = ''pods''"
    "after_first CHR ''.'' ''pods.v1.apps'' = ''v1.apps''"
    "before_first CHR ''.'' ''v1.apps'' = ''v1''"
    "after_first CHR ''.'' ''v1.apps'' = ''apps''"
    "before_first CHR ''.'' ''pods'' = ''pods''"
    "after_first CHR ''.'' ''pods'' = []"
    "before_first CHR ''.'' ''Pod.apps'' = ''Pod''"
    "after_first CHR ''.'' ''Pod.apps'' = ''apps''"
    by (simp_all add: before_first_def after_first_def)
  have c: "2 \<le> Count ''pods.v1.apps'' CHR ''.''" "\<not> 2 \<le> Count ''pods'' CHR ''.''"
    "\<not> 2 \<le> Count ''Pod.apps'' CHR ''.''"
    by (simp_all add: Count_def)
  from arg_parsers_split [of "''pods.v1.apps''"] arg_parsers_split [of "''pods''"]
    arg_parsers_split [of "''Pod.apps''"] f c
  show ?thesis by simp
qed

subsection \<open>Identifiers as keys\<close>

lemma split_at_last_unique:
  assumes eq: "xs @ (c::char) # ys = xs' @ c # ys'" and "c \<notin> set ys" and "c \<notin> set ys'"
  shows "xs = xs' \<and> ys = ys'"
proof -
  have "rev (xs @ c # ys) = rev (xs' @ c # ys')"
    using eq by simp
  then have r: "rev ys @ c # rev xs = rev ys' @ c # rev xs'"
    by simp
  have "before_first c (rev ys @ c # rev xs) = rev ys" "after_first c (rev ys @ c # rev xs) = rev xs"
    using first_of_append [of c "rev ys" "rev xs"] assms(2) by simp_all
  moreover have "before_first c (rev ys' @ c # rev xs') = rev ys'"
    "after_first c (rev ys' @ c # rev xs') = rev xs'"
    using first_of_append [of c "rev ys'" "rev xs'"] assms(3) by simp_all
  ultimately show ?thesis
    using r by simp
qed

lemma GroupVersion_String_inj:
  assumes va: "CHR ''/'' \<notin> set (GV_Version a)" and vb: "CHR ''/'' \<notin> set (GV_Version b)"
    and eq: "GroupVersion_String a = GroupVersion_String b"
  shows "a = b"
proof (cases "GV_Group a = []")
  case True
  note ga = True
  show ?thesis
  proof (cases "GV_Group b = []")
    case True
    with ga eq show ?thesis
      by (simp add: GroupVersion_String_def)
  next
    case False
    with ga eq have "GV_Version a = GV_Group b @ CHR ''/'' # GV_Version b"
      by (simp add: GroupVersion_String_def)
    then have "CHR ''/'' \<in> set (GV_Version a)"
      by simp
    with va show ?thesis by simp
  qed
next
  case False
  note ga = False
  show ?thesis
  proof (cases "GV_Group b = []")
    case True
    with ga eq have "GV_Version b = GV_Group a @ CHR ''/'' # GV_Version a"
      by (simp add: GroupVersion_String_def)
    then have "CHR ''/'' \<in> set (GV_Version b)"
      by simp
    with vb show ?thesis by simp
  next
    case False
    with ga eq have "GV_Group a @ CHR ''/'' # GV_Version a = GV_Group b @ CHR ''/'' # GV_Version b"
      by (simp add: GroupVersion_String_def)
    from split_at_last_unique [OF this va vb] show ?thesis
      by simp
  qed
qed

lemma GroupVersion_String_empty: "GroupVersion_String gv = [] \<longleftrightarrow> gv = GroupVersion_zero"
  by (cases gv) (auto simp: GroupVersion_String_def GroupVersion_zero_def)

lemma GroupVersion_String_sep_free:
  "c \<noteq> CHR ''/'' \<Longrightarrow> c \<notin> set (GV_Group gv) \<Longrightarrow> c \<notin> set (GV_Version gv) \<Longrightarrow>
     c \<notin> set (GroupVersion_String gv)"
  by (simp add: GroupVersion_String_def)

lemma before_first_joined:
  "c \<notin> set x \<Longrightarrow> before_first c (x @ concat (map (\<lambda>s. c # s) xs)) = x"
  by (cases xs) (simp_all add: no_sep_first first_of_append)

lemma joined_tail_inj:
  assumes "\<forall>x \<in> set xs. (c::char) \<notin> set x" and "\<forall>y \<in> set ys. c \<notin> set y"
    and "concat (map (\<lambda>s. c # s) xs) = concat (map (\<lambda>s. c # s) ys)"
  shows "xs = ys"
  using assms
proof (induction xs arbitrary: ys)
  case Nil
  then show ?case by (cases ys) simp_all
next
  case (Cons x xs)
  show ?case
  proof (cases ys)
    case Nil
    with Cons.prems show ?thesis by simp
  next
    case (Cons y ys')
    with Cons.prems have eq: "x @ concat (map (\<lambda>s. c # s) xs) = y @ concat (map (\<lambda>s. c # s) ys')"
      and cx: "c \<notin> set x" and cy: "c \<notin> set y"
      by simp_all
    have "x = y"
      using before_first_joined [OF cx, of xs] before_first_joined [OF cy, of ys'] eq by simp
    with eq have "concat (map (\<lambda>s. c # s) xs) = concat (map (\<lambda>s. c # s) ys')"
      by simp
    with Cons.IH [of ys'] Cons.prems Cons \<open>x = y\<close> show ?thesis
      by simp
  qed
qed

lemma joined_inj:
  assumes cx: "\<forall>x \<in> set xs. (c::char) \<notin> set x" and cy: "\<forall>y \<in> set ys. c \<notin> set y"
    and eq: "(case xs of [] \<Rightarrow> [] | r # rs \<Rightarrow> r @ concat (map (\<lambda>s. c # s) rs))
           = (case ys of [] \<Rightarrow> [] | r # rs \<Rightarrow> r @ concat (map (\<lambda>s. c # s) rs))"
    and ex: "{xs, ys} \<noteq> {[], [[]]}"
  shows "xs = ys"
proof (cases xs)
  case Nil
  note xs = Nil
  show ?thesis
  proof (cases ys)
    case Nil
    with xs show ?thesis by simp
  next
    case (Cons y ys')
    with xs eq have "y = []" and "concat (map (\<lambda>s. c # s) ys') = []"
      by simp_all
    then have "ys' = []"
      by (cases ys') simp_all
    with xs Cons \<open>y = []\<close> ex show ?thesis by simp
  qed
next
  case (Cons x xs')
  note xs = Cons
  show ?thesis
  proof (cases ys)
    case Nil
    with xs eq have "x = []" and "concat (map (\<lambda>s. c # s) xs') = []"
      by simp_all
    then have "xs' = []"
      by (cases xs') simp_all
    with xs Nil \<open>x = []\<close> ex show ?thesis by (simp add: insert_commute)
  next
    case (Cons y ys')
    with xs eq have e: "x @ concat (map (\<lambda>s. c # s) xs') = y @ concat (map (\<lambda>s. c # s) ys')"
      by simp
    from xs Cons cx cy have fx: "c \<notin> set x" and fy: "c \<notin> set y"
      by simp_all
    have "x = y"
      using before_first_joined [OF fx, of xs'] before_first_joined [OF fy, of ys'] e by simp
    with e have "concat (map (\<lambda>s. c # s) xs') = concat (map (\<lambda>s. c # s) ys')"
      by simp
    with joined_tail_inj [of xs' c ys'] cx cy xs Cons have "xs' = ys'"
      by simp
    with \<open>x = y\<close> xs Cons show ?thesis by simp
  qed
qed

lemma GroupVersions_Identifier_joined:
  "GroupVersions_Identifier gvs =
     CHR ''['' # (case map GroupVersion_String gvs of
                    [] \<Rightarrow> []
                  | r # rs \<Rightarrow> r @ concat (map (\<lambda>s. CHR '','' # s) rs)) @ '']''"
  by (cases gvs)
    (simp_all add: GroupVersions_Identifier_def render_loop_acc Join_Cons comp_def
      del: Join.simps(2))

text \<open>
  Claim C4, as stated, fails: a slash inside a version, a comma inside a field, and the
  empty sequence against the sequence of one empty group-version all give equal identifiers
  for different values.
\<close>

theorem Identifier_collisions:
  "\<lparr>GV_Group = [], GV_Version = ''a/b''\<rparr> \<noteq> \<lparr>GV_Group = ''a'', GV_Version = ''b''\<rparr>
   \<and> GroupVersion_Identifier \<lparr>GV_Group = [], GV_Version = ''a/b''\<rparr>
       = GroupVersion_Identifier \<lparr>GV_Group = ''a'', GV_Version = ''b''\<rparr>
   \<and> [\<lparr>GV_Group = [], GV_Version = ''a,b''\<rparr>]
       \<noteq> [\<lparr>GV_Group = [], GV_Version = ''a''\<rparr>, \<lparr>GV_Group = [], GV_Version = ''b''\<rparr>]
   \<and> GroupVersions_Identifier [\<lparr>GV_Group = [], GV_Version = ''a,b''\<rparr>]
       = GroupVersions_Identifier
           [\<lparr>GV_Group = [], GV_Version = ''a''\<rparr>, \<lparr>GV_Group = [], GV_Version = ''b''\<rparr>]
   \<and> [] \<noteq> [\<lparr>GV_Group = [], GV_Version = []\<rparr>]
   \<and> GroupVersions_Identifier [] = GroupVersions_Identifier [\<lparr>GV_Group = [], GV_Version = []\<rparr>]"
  by (simp add: GroupVersion_Identifier_def GroupVersions_Identifier_def GroupVersion_String_def)

text \<open>
  Claim C4, amended. \<open>Identifier\<close> is injective on group-versions whose version holds no
  slash; on sequences it is injective when, in addition, no field of an element holds a
  comma and the two sequences are not the empty one and the one of a single empty
  group-version.
\<close>

theorem Identifier_injective_on_clean:
  "(CHR ''/'' \<notin> set (GV_Version gv1) \<and> CHR ''/'' \<notin> set (GV_Version gv2) \<and> gv1 \<noteq> gv2 \<longrightarrow>
      GroupVersion_Identifier gv1 \<noteq> GroupVersion_Identifier gv2)
   \<and> ((\<forall>gv \<in> set s1 \<union> set s2.
          CHR ''/'' \<notin> set (GV_Version gv) \<and> CHR '','' \<notin> set (GV_Group gv)
          \<and> CHR '','' \<notin> set (GV_Version gv))
        \<and> {s1, s2} \<noteq> {[], [GroupVersion_zero]} \<and> s1 \<noteq> s2 \<longrightarrow>
      GroupVersions_Identifier s1 \<noteq> GroupVersions_Identifier s2)"
proof (intro conjI impI)
  assume "CHR ''/'' \<notin> set (GV_Version gv1) \<and> CHR ''/'' \<notin> set (GV_Version gv2) \<and> gv1 \<noteq> gv2"
  then show "GroupVersion_Identifier gv1 \<noteq> GroupVersion_Identifier gv2"
    using GroupVersion_String_inj [of gv1 gv2] by (auto simp: GroupVersion_Identifier_def)
next
  assume a: "(\<forall>gv \<in> set s1 \<union> set s2.
          CHR ''/'' \<notin> set (GV_Version gv) \<and> CHR '','' \<notin> set (GV_Group gv)
          \<and> CHR '','' \<notin> set (GV_Version gv))
        \<and> {s1, s2} \<noteq> {[], [GroupVersion_zero]} \<and> s1 \<noteq> s2"
  show "GroupVersions_Identifier s1 \<noteq> GroupVersions_Identifier s2"
  proof
    assume eq: "GroupVersions_Identifier s1 = GroupVersions_Identifier s2"
    let ?r1 = "map GroupVersion_String s1" and ?r2 = "map GroupVersion_String s2"
    from eq have j: "(case ?r1 of [] \<Rightarrow> [] | r # rs \<Rightarrow> r @ concat (map (\<lambda>s. CHR '','' # s) rs))
                   = (case ?r2 of [] \<Rightarrow> [] | r # rs \<Rightarrow> r @ concat (map (\<lambda>s. CHR '','' # s) rs))"
      by (simp only: GroupVersions_Identifier_joined) simp
    have f1: "\<forall>x \<in> set ?r1. CHR '','' \<notin> set x" and f2: "\<forall>x \<in> set ?r2. CHR '','' \<notin> set x"
      using a by (auto simp: GroupVersion_String_sep_free)
    have ex: "{?r1, ?r2} \<noteq> {[], [[]]}"
    proof
      assume "{?r1, ?r2} = {[], [[]]}"
      then consider "?r1 = []" "?r2 = [[]]" | "?r1 = [[]]" "?r2 = []"
        by (auto simp: doubleton_eq_iff)
      then show False
      proof cases
        case 1
        then have "s1 = []" and "s2 = [GroupVersion_zero]"
          by (auto simp: map_eq_Cons_conv GroupVersion_String_empty)
        with a show False by simp
      next
        case 2
        then have "s2 = []" and "s1 = [GroupVersion_zero]"
          by (auto simp: map_eq_Cons_conv GroupVersion_String_empty)
        with a show False by (simp add: insert_commute)
      qed
    qed
    from joined_inj [OF f1 f2 j ex] have m: "?r1 = ?r2" .
    have "inj_on GroupVersion_String (set s1 \<union> set s2)"
      using a by (auto intro!: inj_onI GroupVersion_String_inj)
    with m have "s1 = s2"
      by (rule map_inj_on)
    with a show False by simp
  qed
qed

theorem Identifier_injective_on_clean_witness:
  "GroupVersion_Identifier \<lparr>GV_Group = ''apps'', GV_Version = ''v1''\<rparr>
     \<noteq> GroupVersion_Identifier \<lparr>GV_Group = [], GV_Version = ''v1''\<rparr>
   \<and> GroupVersions_Identifier [\<lparr>GV_Group = ''apps'', GV_Version = ''v1''\<rparr>]
     \<noteq> GroupVersions_Identifier
         [\<lparr>GV_Group = ''apps'', GV_Version = ''v1''\<rparr>, \<lparr>GV_Group = [], GV_Version = ''v1''\<rparr>]"
  using Identifier_injective_on_clean
    [of "\<lparr>GV_Group = ''apps'', GV_Version = ''v1''\<rparr>" "\<lparr>GV_Group = [], GV_Version = ''v1''\<rparr>"
        "[\<lparr>GV_Group = ''apps'', GV_Version = ''v1''\<rparr>]"
        "[\<lparr>GV_Group = ''apps'', GV_Version = ''v1''\<rparr>, \<lparr>GV_Group = [], GV_Version = ''v1''\<rparr>]"]
  by (simp add: doubleton_eq_iff)

end
